theory Spec2Isabelle
  imports Complex_Main
begin

section \<open>The inference loop of the sequence-classification notebook\<close>

text \<open>
  The notebook's only program logic is its last code cell:
  \<^verbatim>\<open>
  for d in ex_input:
      art = d['description'].numpy().decode('utf-8')
      labs = list(config.id2label.values())
      actual_class = labs[d['label'].numpy()]
      inp = tokenizer(art, return_tensors='pt')
      with torch.no_grad():
          out = torch.softmax(model(**inp).logits, dim = -1)
      class_ind = np.argmax(out[0])
      predicted_class = labs[class_ind]
      output_dict = {k:v for k, v in zip(config.id2label.values(), out[0])}
      print('Article: {}\nActual class: {}\nPredictions: {}\n'.format(art, actual_class, output_dict))
  \<close>
  Every exception of the Python is a value \<open>Inl e\<close> of the model. The objects the cell
  gets from outside (the decoder of byte strings, the sub-word segmentation and special
  token ids of the tokenizer, the forward pass of the network, the label table of the
  configuration) are fields of one record, so every statement below holds for whatever
  they are. The cell runs over the list \<^verbatim>\<open>ex_input\<close> it is given. Tensor entries are
  modelled as real numbers; the results about the loop use only their order and the
  shapes of the tensors.
\<close>

subsection \<open>Exceptions\<close>

datatype py_error = UnicodeDecodeError | IndexError | ValueError | RuntimeError

subsection \<open>Data\<close>

text \<open>An element of \<^verbatim>\<open>ex_input\<close>: the bytes of the article and its integer label.\<close>

record corpus_record =
  description :: string
  label :: int

text \<open>What \<^verbatim>\<open>tokenizer(art, return_tensors='pt')\<close> returns: three rows of equal length.\<close>

record encoding =
  input_ids :: "nat list"
  token_type_ids :: "nat list"
  attention_mask :: "nat list"

text \<open>
  The loaded objects \<^verbatim>\<open>config\<close>, \<^verbatim>\<open>tokenizer\<close> and \<^verbatim>\<open>model\<close>, and the decoder.
  \<open>id2label\<close> is the dictionary \<^verbatim>\<open>config.id2label\<close> in insertion order;
  \<open>model_max_length\<close> is the tokenizer's attribute of that name (512 for BERT), which the
  call of the cell never consults; \<open>logits\<close> is the row \<^verbatim>\<open>model(**inp).logits[0]\<close>, or
  the exception the forward pass raises.
\<close>

record hub =
  utf8_decode :: "string \<Rightarrow> py_error + string"
  id2label :: "(int \<times> string) list"
  wordpiece :: "string \<Rightarrow> nat list"
  cls_token_id :: nat
  sep_token_id :: nat
  model_max_length :: nat
  logits :: "encoding \<Rightarrow> py_error + real list"

text \<open>
  The local variables of one iteration that later lines read or print. The field
  \<open>out\<close> holds the row \<^verbatim>\<open>out[0]\<close>, the only part of \<^verbatim>\<open>out\<close> the cell reads.
\<close>

record prediction =
  out :: "real list"
  class_ind :: nat
  predicted_class :: string
  output_dict :: "(string \<times> real) list"

record iteration =
  art :: string
  actual_class :: string
  inp :: encoding
  pred :: prediction

subsection \<open>Library calls of the cell\<close>

text \<open>
  \<^verbatim>\<open>xs[i]\<close> on a Python list: a negative index counts from the end, an index out of
  range raises \<^verbatim>\<open>IndexError\<close>.
\<close>

definition getitem :: "'a list \<Rightarrow> int \<Rightarrow> py_error + 'a" where
  "getitem xs i =
     (if 0 \<le> i \<and> i < int (length xs) then Inr (xs ! nat i)
      else if i < 0 \<and> - int (length xs) \<le> i then Inr (xs ! nat (int (length xs) + i))
      else Inl IndexError)"

text \<open>
  \<^verbatim>\<open>tokenizer(art, return_tensors='pt')\<close>: the call passes neither \<^verbatim>\<open>padding\<close> nor
  \<^verbatim>\<open>truncation\<close> nor \<^verbatim>\<open>max_length\<close>, so the word pieces are wrapped in the two
  special tokens and returned as they are, with an attention mask of ones. For a result
  longer than \<open>model_max_length\<close> the library logs a warning and returns it unchanged.
\<close>

definition tokenizer :: "hub \<Rightarrow> string \<Rightarrow> encoding" where
  "tokenizer h text =
     (let ids = cls_token_id h # wordpiece h text @ [sep_token_id h]
      in \<lparr>input_ids = ids,
          token_type_ids = replicate (length ids) 0,
          attention_mask = replicate (length ids) 1\<rparr>)"

text \<open>
  \<^verbatim>\<open>torch.softmax(x, dim = -1)\<close> on one row: the maximum is subtracted before
  exponentiation; an empty row stays empty.
\<close>

fun softmax :: "real list \<Rightarrow> real list" where
  "softmax [] = []"
| "softmax (x # xs) =
     (let m = fold max xs x;
          es = map (\<lambda>y. exp (y - m)) (x # xs);
          s = sum_list es
      in map (\<lambda>e. e / s) es)"

text \<open>
  \<^verbatim>\<open>np.argmax\<close> on a one-dimensional array: a scan from the left that moves to a new
  index only for a strictly greater entry; an empty array raises \<^verbatim>\<open>ValueError\<close>.
\<close>

fun argmax_scan :: "'a::linorder list \<Rightarrow> nat \<Rightarrow> 'a \<Rightarrow> nat \<Rightarrow> nat" where
  "argmax_scan [] i mp best = best"
| "argmax_scan (x # xs) i mp best =
     (if mp < x then argmax_scan xs (Suc i) x i else argmax_scan xs (Suc i) mp best)"

definition argmax :: "'a::linorder list \<Rightarrow> py_error + nat" where
  "argmax xs = (case xs of [] \<Rightarrow> Inl ValueError | x # rest \<Rightarrow> Inr (argmax_scan rest 1 x 0))"

text \<open>
  A Python dictionary as an association list in insertion order. Storing under a key
  that is already present replaces the value and keeps the key's place.
\<close>

fun setitem :: "('k \<times> 'v) list \<Rightarrow> 'k \<Rightarrow> 'v \<Rightarrow> ('k \<times> 'v) list" where
  "setitem [] k v = [(k, v)]"
| "setitem ((k', v') # d) k v =
     (if k' = k then (k', v) # d else (k', v') # setitem d k v)"

text \<open>\<^verbatim>\<open>{k:v for k, v in pairs}\<close>\<close>

definition dict_of :: "('k \<times> 'v) list \<Rightarrow> ('k \<times> 'v) list" where
  "dict_of pairs = fold (\<lambda>(k, v) d. setitem d k v) pairs []"

subsection \<open>The loop\<close>

text \<open>
  The lines from \<^verbatim>\<open>torch.softmax\<close> to \<^verbatim>\<open>output_dict\<close>: what the cell does with the
  row of logits. \<^verbatim>\<open>zip\<close> stops at the shorter argument, as \<open>zip\<close> does.
\<close>

definition postprocess :: "string list \<Rightarrow> real list \<Rightarrow> py_error + prediction" where
  "postprocess labs row =
     (let out0 = softmax row in
      case argmax out0 of
        Inl e \<Rightarrow> Inl e
      | Inr ci \<Rightarrow>
         (case getitem labs (int ci) of
            Inl e \<Rightarrow> Inl e
          | Inr pc \<Rightarrow>
              Inr \<lparr>out = out0, class_ind = ci, predicted_class = pc,
                   output_dict = dict_of (zip labs out0)\<rparr>))"

text \<open>One iteration, in the order of the source lines.\<close>

definition loop_body :: "hub \<Rightarrow> corpus_record \<Rightarrow> py_error + iteration" where
  "loop_body h d =
     (case utf8_decode h (description d) of
        Inl e \<Rightarrow> Inl e
      | Inr a \<Rightarrow>
         (let labs = map snd (id2label h) in
          case getitem labs (label d) of
            Inl e \<Rightarrow> Inl e
          | Inr ac \<Rightarrow>
             (let i = tokenizer h a in
              case logits h i of
                Inl e \<Rightarrow> Inl e
              | Inr row \<Rightarrow>
                 (case postprocess labs row of
                    Inl e \<Rightarrow> Inl e
                  | Inr p \<Rightarrow> Inr \<lparr>art = a, actual_class = ac, inp = i, pred = p\<rparr>))))"

text \<open>What \<^verbatim>\<open>print\<close> receives: the article, the actual class and the dictionary.\<close>

definition printed :: "iteration \<Rightarrow> string \<times> string \<times> (string \<times> real) list" where
  "printed v = (art v, actual_class v, output_dict (pred v))"

text \<open>
  The \<^verbatim>\<open>for\<close> loop. There is no \<^verbatim>\<open>try\<close> in the cell: the first exception ends the
  loop. The result is everything printed so far and the exception, if any.
\<close>

fun inference_loop ::
  "hub \<Rightarrow> corpus_record list \<Rightarrow> (string \<times> string \<times> (string \<times> real) list) list
     \<Rightarrow> (string \<times> string \<times> (string \<times> real) list) list \<times> py_error option" where
  "inference_loop h [] stdout = (stdout, None)"
| "inference_loop h (d # ds) stdout =
     (case loop_body h d of
        Inl e \<Rightarrow> (stdout, Some e)
      | Inr v \<Rightarrow> inference_loop h ds (stdout @ [printed v]))"

subsection \<open>A concrete instance\<close>

text \<open>
  Used to evaluate the definitions: the label table the notebook prints, a stand-in
  segmentation that splits the text at blanks and maps every word to BERT's id 100 of
  the unknown token (the empty text has no piece), the special token ids of BERT, and a
  stand-in network that scores all four classes equally and, like BERT, raises on an
  input longer than its 512 positions.
\<close>

fun split_blanks :: "string \<Rightarrow> string \<Rightarrow> string list" where
  "split_blanks w [] = (if w = [] then [] else [w])"
| "split_blanks w (c # cs) =
     (if c = CHR '' '' then (if w = [] then split_blanks [] cs else w # split_blanks [] cs)
      else split_blanks (w @ [c]) cs)"

definition ag_news_labels :: "string list" where
  "ag_news_labels = [''World'', ''Sports'', ''Business'', ''Sci/Tech'']"

definition example_hub :: hub where
  "example_hub =
     \<lparr>utf8_decode = Inr,
      id2label = zip [0, 1, 2, 3] ag_news_labels,
      wordpiece = (\<lambda>text. map (\<lambda>w. 100) (split_blanks [] text)),
      cls_token_id = 101,
      sep_token_id = 102,
      model_max_length = 512,
      logits = (\<lambda>e. if 512 < length (input_ids e) then Inl RuntimeError
                      else Inr [0, 0, 0, 0])\<rparr>"

section \<open>Properties\<close>

subsection \<open>The arg-max scan\<close>

text \<open>
  Invariant of the scan: \<open>ps\<close> is the part already read, \<open>mp\<close> its maximum and
  \<open>best\<close> the first place where \<open>mp\<close> stands.
\<close>

lemma argmax_scan_first_max:
  assumes "length ps = i" "best < i" "ps ! best = mp"
    "\<forall>j < i. ps ! j \<le> mp" "\<forall>j < best. ps ! j < mp"
  shows "argmax_scan xs i mp best < length (ps @ xs) \<and>
         (\<forall>j < length (ps @ xs). (ps @ xs) ! j \<le> (ps @ xs) ! argmax_scan xs i mp best) \<and>
         (\<forall>j < argmax_scan xs i mp best.
             (ps @ xs) ! j < (ps @ xs) ! argmax_scan xs i mp best)"
  using assms
proof (induction xs arbitrary: ps i mp best)
  case Nil
  then show ?case by simp
next
  case (Cons x xs)
  have len: "length (ps @ [x]) = Suc i" using Cons.prems by simp
  show ?case
  proof (cases "mp < x")
    case True
    have at: "(ps @ [x]) ! i = x" using Cons.prems by (simp add: nth_append)
    have le: "\<forall>j < Suc i. (ps @ [x]) ! j \<le> x"
      using Cons.prems True by (auto simp: nth_append less_Suc_eq)
    have lt: "\<forall>j < i. (ps @ [x]) ! j < x"
      using Cons.prems True by (auto simp: nth_append)
    from Cons.IH[OF len lessI at le lt] True show ?thesis by simp
  next
    case False
    have b: "best < Suc i" using Cons.prems by simp
    have at: "(ps @ [x]) ! best = mp" using Cons.prems by (simp add: nth_append)
    have le: "\<forall>j < Suc i. (ps @ [x]) ! j \<le> mp"
      using Cons.prems False by (auto simp: nth_append less_Suc_eq)
    have lt: "\<forall>j < best. (ps @ [x]) ! j < mp"
      using Cons.prems by (auto simp: nth_append)
    from Cons.IH[OF len b at le lt] False show ?thesis by simp
  qed
qed

lemma argmax_first_max:
  assumes "argmax xs = Inr k"
  shows "k < length xs \<and> (\<forall>j < length xs. xs ! j \<le> xs ! k) \<and> (\<forall>j < k. xs ! j < xs ! k)"
proof (cases xs)
  case Nil
  with assms show ?thesis by (simp add: argmax_def)
next
  case (Cons x rest)
  with assms have k: "k = argmax_scan rest 1 x 0" by (simp add: argmax_def)
  have "argmax_scan rest 1 x 0 < length ([x] @ rest) \<and>
         (\<forall>j < length ([x] @ rest).
             ([x] @ rest) ! j \<le> ([x] @ rest) ! argmax_scan rest 1 x 0) \<and>
         (\<forall>j < argmax_scan rest 1 x 0.
             ([x] @ rest) ! j < ([x] @ rest) ! argmax_scan rest 1 x 0)"
    by (rule argmax_scan_first_max) simp_all
  with k Cons show ?thesis by simp
qed

lemma argmax_Inl: "argmax xs = Inl e \<Longrightarrow> xs = [] \<and> e = ValueError"
  by (cases xs) (simp_all add: argmax_def)

subsection \<open>Shapes\<close>

lemma softmax_length: "length (softmax xs) = length xs"
  by (cases xs) (simp_all add: Let_def)

lemma postprocess_Inr:
  "postprocess labs row = Inr p \<Longrightarrow>
     out p = softmax row \<and> argmax (softmax row) = Inr (class_ind p) \<and>
     getitem labs (int (class_ind p)) = Inr (predicted_class p) \<and>
     output_dict p = dict_of (zip labs (softmax row))"
  by (auto simp: postprocess_def Let_def split: sum.splits)

lemma postprocess_Inl:
  "postprocess labs row = Inl e \<Longrightarrow>
     argmax (softmax row) = Inl e \<or>
     (\<exists>k. argmax (softmax row) = Inr k \<and> getitem labs (int k) = Inl e)"
  by (auto simp: postprocess_def Let_def split: sum.splits)

lemma loop_body_Inr:
  "loop_body h d = Inr v \<Longrightarrow>
     utf8_decode h (description d) = Inr (art v) \<and>
     getitem (map snd (id2label h)) (label d) = Inr (actual_class v) \<and>
     inp v = tokenizer h (art v) \<and>
     (\<exists>row. logits h (inp v) = Inr row \<and>
            postprocess (map snd (id2label h)) row = Inr (pred v))"
  by (auto simp: loop_body_def Let_def split: sum.splits)

subsection \<open>List indexing\<close>

lemma getitem_in_range: "k < length xs \<Longrightarrow> getitem xs (int k) = Inr (xs ! k)"
  by (simp add: getitem_def)

lemma getitem_Inl:
  "getitem xs i = Inl e \<Longrightarrow>
     e = IndexError \<and> (i < - int (length xs) \<or> int (length xs) \<le> i)"
  by (auto simp: getitem_def split: if_splits)

lemma argmax_nonempty: "xs \<noteq> [] \<Longrightarrow> \<exists>k. argmax xs = Inr k"
  by (cases xs) (simp_all add: argmax_def)

subsection \<open>Dictionaries\<close>

text \<open>
  What a dictionary built from a list of pairs is, whatever the keys: it has at most one
  entry per pair, a lookup finds the last value stored under the key, and the keys stand
  in the order of their first occurrence.
\<close>

lemma setitem_length: "length (setitem d k v) \<le> Suc (length d)"
  by (induction d) auto

lemma fold_setitem_length:
  "length (fold (\<lambda>(k, v) d. setitem d k v) ps acc) \<le> length acc + length ps"
proof (induction ps arbitrary: acc)
  case Nil
  then show ?case by simp
next
  case (Cons p ps)
  obtain k v where p: "p = (k, v)" by (cases p)
  have "length (fold (\<lambda>(k, v) d. setitem d k v) ps (setitem acc k v))
          \<le> length (setitem acc k v) + length ps" by (rule Cons.IH)
  also have "\<dots> \<le> Suc (length acc) + length ps" using setitem_length[of acc k v] by simp
  finally show ?case using p by simp
qed

lemma dict_of_length: "length (dict_of ps) \<le> length ps"
  using fold_setitem_length[of ps "[]"] by (simp add: dict_of_def)

lemma setitem_map_of: "map_of (setitem d k v) = (map_of d)(k \<mapsto> v)"
  by (induction d) (auto simp: fun_upd_twist)

lemma fold_setitem_map_of:
  "map_of (fold (\<lambda>(k, v) d. setitem d k v) ps acc) = map_of acc ++ map_of (rev ps)"
proof (induction ps arbitrary: acc)
  case Nil
  then show ?case by simp
next
  case (Cons p ps)
  obtain k v where p: "p = (k, v)" by (cases p)
  have "map_of (fold (\<lambda>(k, v) d. setitem d k v) ps (setitem acc k v))
          = map_of (setitem acc k v) ++ map_of (rev ps)" by (rule Cons.IH)
  then show ?case using p
    by (simp add: setitem_map_of map_add_upd_left fun_eq_iff map_add_def
        split: option.splits)
qed

lemma dict_of_map_of: "map_of (dict_of ps) = map_of (rev ps)"
  using fold_setitem_map_of[of ps "[]"] by (simp add: dict_of_def)

lemma setitem_keys:
  "map fst (setitem d k v) = (if k \<in> fst ` set d then map fst d else map fst d @ [k])"
  by (induction d) force+

lemma remdups_snoc: "remdups (ys @ [x]) = filter (\<lambda>y. y \<noteq> x) (remdups ys) @ [x]"
  by (induction ys) auto

lemma first_places_Cons:
  "rev (remdups (rev (x # xs))) = x # filter (\<lambda>y. y \<noteq> x) (rev (remdups (rev xs)))"
  by (simp add: remdups_snoc rev_filter)

lemma fold_setitem_keys:
  "map fst (fold (\<lambda>(k, v) d. setitem d k v) ps acc) =
     map fst acc @ filter (\<lambda>k. k \<notin> fst ` set acc) (rev (remdups (rev (map fst ps))))"
proof (induction ps arbitrary: acc)
  case Nil
  then show ?case by simp
next
  case (Cons p ps)
  obtain k v where p: "p = (k, v)" by (cases p)
  have ih: "map fst (fold (\<lambda>(k, v) d. setitem d k v) ps (setitem acc k v)) =
     map fst (setitem acc k v) @
     filter (\<lambda>k'. k' \<notin> fst ` set (setitem acc k v)) (rev (remdups (rev (map fst ps))))"
    by (rule Cons.IH)
  have s: "fst ` set (setitem acc k v) = insert k (fst ` set acc)"
  proof -
    have "set (map fst (setitem acc k v)) = insert k (set (map fst acc))"
      unfolding setitem_keys by auto
    then show ?thesis by simp
  qed
  show ?case
    unfolding p list.map fst_conv first_places_Cons
    using ih s by (auto simp: setitem_keys intro!: filter_cong)
qed

lemma dict_of_keys: "map fst (dict_of ps) = rev (remdups (rev (map fst ps)))"
  using fold_setitem_keys[of ps "[]"] by (simp add: dict_of_def)

text \<open>With distinct keys the dictionary is the list of pairs itself.\<close>

lemma setitem_fresh: "k \<notin> fst ` set d \<Longrightarrow> setitem d k v = d @ [(k, v)]"
  by (induction d) auto

lemma fold_setitem_distinct:
  "distinct (map fst (acc @ ps)) \<Longrightarrow> fold (\<lambda>(k, v) d. setitem d k v) ps acc = acc @ ps"
proof (induction ps arbitrary: acc)
  case Nil
  then show ?case by simp
next
  case (Cons p ps)
  obtain k v where p: "p = (k, v)" by (cases p)
  from Cons.prems p have fresh: "k \<notin> fst ` set acc" by auto
  from Cons.prems p have "distinct (map fst ((acc @ [(k, v)]) @ ps))" by simp
  from Cons.IH[OF this] fresh p show ?case by (simp add: setitem_fresh)
qed

lemma dict_of_zip: "distinct ks \<Longrightarrow> dict_of (zip ks vs) = zip ks vs"
  using fold_setitem_distinct[of "[]" "zip ks vs"]
  by (simp add: dict_of_def map_fst_zip_take)

subsection \<open>Runs of the concrete instance\<close>

lemma split_blanks_words:
  "split_blanks [] (concat (replicate n ''a '')) = replicate n ''a''"
  by (induction n) simp_all

lemma example_ok:
  "loop_body example_hub \<lparr>description = ''IBM'', label = 2\<rparr> =
     Inr \<lparr>art = ''IBM'', actual_class = ''Business'',
          inp = \<lparr>input_ids = [101, 100, 102], token_type_ids = [0, 0, 0],
                 attention_mask = [1, 1, 1]\<rparr>,
          pred = \<lparr>out = [1/4, 1/4, 1/4, 1/4], class_ind = 0, predicted_class = ''World'',
                  output_dict = [(''World'', 1/4), (''Sports'', 1/4), (''Business'', 1/4),
                                 (''Sci/Tech'', 1/4)]\<rparr>\<rparr>"
  by (simp add: loop_body_def tokenizer_def example_hub_def postprocess_def argmax_def
      getitem_def dict_of_def ag_news_labels_def)

lemma example_long:
  "loop_body example_hub \<lparr>description = concat (replicate 600 ''a ''), label = 2\<rparr> =
     Inl RuntimeError"
  by (simp add: loop_body_def tokenizer_def example_hub_def getitem_def ag_news_labels_def
      split_blanks_words)

lemma example_repeated:
  "loop_body (example_hub\<lparr>id2label := [(0, ''News''), (1, ''News'')],
                          logits := (\<lambda>e. Inr [1, 0])\<rparr>)
       \<lparr>description = ''IBM'', label = 1\<rparr> =
     Inr \<lparr>art = ''IBM'', actual_class = ''News'',
          inp = \<lparr>input_ids = [101, 100, 102], token_type_ids = [0, 0, 0],
                 attention_mask = [1, 1, 1]\<rparr>,
          pred = \<lparr>out = softmax [1, 0], class_ind = 0, predicted_class = ''News'',
                  output_dict = [(''News'', softmax [1, 0] ! 1)]\<rparr>\<rparr>"
proof -
  have "exp (- 1) / (1 + exp (- 1)) \<le> 1 / (1 + exp (- 1 :: real))"
    by (intro divide_right_mono add_nonneg_nonneg) simp_all
  then show ?thesis
    by (simp add: loop_body_def tokenizer_def example_hub_def postprocess_def argmax_def
        getitem_def dict_of_def not_less)
qed

lemma argmax_big_first: "argmax (softmax [1, 0, 0, 0, 0]) = Inr 0"
proof -
  have "exp (- 1) / (1 + 4 * exp (- 1)) \<le> 1 / (1 + 4 * exp (- 1 :: real))"
    by (intro divide_right_mono add_nonneg_nonneg mult_nonneg_nonneg) simp_all
  then show ?thesis by (simp add: argmax_def not_less)
qed

lemma argmax_big_last: "argmax (softmax [0, 0, 0, 0, 1]) = Inr 4"
proof -
  have "exp (- 1) / (4 * exp (- 1) + 1) < 1 / (4 * exp (- 1) + (1::real))"
    by (intro divide_strict_right_mono add_pos_pos mult_pos_pos) simp_all
  then show ?thesis by (simp add: argmax_def)
qed

subsection \<open>The predicted label\<close>

text \<open>
  C3. Whenever the post-processing of a row of scores succeeds, the index it selects is
  an arg-max of the probability vector \<open>out\<close>: it is in range, no entry is greater than
  the entry there, and every entry before it is strictly smaller, so among tied maxima
  the lowest index is taken. The predicted class name is the label at that index.
\<close>

theorem class_ind_first_argmax:
  "postprocess labs row = Inr p \<Longrightarrow>
     class_ind p < length (out p) \<and>
     (\<forall>j < length (out p). out p ! j \<le> out p ! class_ind p) \<and>
     (\<forall>j < class_ind p. out p ! j < out p ! class_ind p) \<and>
     predicted_class p = labs ! class_ind p"
proof -
  assume a: "postprocess labs row = Inr p"
  from postprocess_Inr[OF a] have m: "argmax (out p) = Inr (class_ind p)"
    and g: "getitem labs (int (class_ind p)) = Inr (predicted_class p)" by simp_all
  from g have "predicted_class p = labs ! class_ind p"
    by (auto simp: getitem_def split: if_splits)
  with argmax_first_max[OF m] show ?thesis by simp
qed

text \<open>Four equal scores: all four probabilities tie, and index 0 is selected.\<close>

theorem class_ind_first_argmax_witness:
  "postprocess ag_news_labels [0, 0, 0, 0] =
     Inr \<lparr>out = [1/4, 1/4, 1/4, 1/4], class_ind = 0, predicted_class = ''World'',
          output_dict = [(''World'', 1/4), (''Sports'', 1/4), (''Business'', 1/4),
                         (''Sci/Tech'', 1/4)]\<rparr> \<and>
   [1/4, 1/4, 1/4, 1/4 :: real] ! 3 \<le> [1/4, 1/4, 1/4, 1/4] ! 0 \<and>
   ''World'' = ag_news_labels ! 0"
proof -
  have run: "postprocess ag_news_labels [0, 0, 0, 0] =
     Inr \<lparr>out = [1/4, 1/4, 1/4, 1/4], class_ind = 0, predicted_class = ''World'',
          output_dict = [(''World'', 1/4), (''Sports'', 1/4), (''Business'', 1/4),
                         (''Sci/Tech'', 1/4)]\<rparr>"
    by (simp add: postprocess_def argmax_def getitem_def dict_of_def ag_news_labels_def)
  from class_ind_first_argmax[OF run] run show ?thesis by simp
qed

subsection \<open>The tokenizer call\<close>

text \<open>
  C4, as amended. The call neither pads nor truncates: the token ids are the word pieces
  of the text between the two special tokens, so their number is the number of word
  pieces plus 2 whatever \<open>model_max_length\<close> is, and the attention mask has the same
  length and consists of ones only.
\<close>

theorem tokenizer_neither_pads_nor_truncates:
  "input_ids (tokenizer h text) = cls_token_id h # wordpiece h text @ [sep_token_id h] \<and>
   length (input_ids (tokenizer h text)) = length (wordpiece h text) + 2 \<and>
   attention_mask (tokenizer h text) = replicate (length (wordpiece h text) + 2) 1"
  by (simp add: tokenizer_def Let_def)

text \<open>
  C4 as stated fails: the empty text is encoded in 2 positions and a text of 600 words
  in 602, while the fixed sequence length is 512.
\<close>

theorem tokenizer_fixed_length_counterexample:
  "length (input_ids (tokenizer example_hub '''')) = 2 \<and>
   length (attention_mask (tokenizer example_hub '''')) = 2 \<and>
   length (input_ids (tokenizer example_hub (concat (replicate 600 ''a '')))) = 602 \<and>
   model_max_length example_hub = 512"
  by (simp add: tokenizer_def example_hub_def split_blanks_words)

subsection \<open>Failures of the post-processing\<close>

text \<open>
  C8, as amended. The post-processing checks no shape and knows no shape error; what
  decides is the index \<open>k\<close> of the first maximum of the probabilities. An empty row
  raises the \<^verbatim>\<open>ValueError\<close> of the arg-max. If \<open>k\<close> is below the number of labels,
  the row is processed, whatever its length: the result holds the probabilities, \<open>k\<close>,
  the label at \<open>k\<close> and the dictionary of the zipped names and probabilities. If \<open>k\<close>
  is not below the number of labels, the label lookup raises \<^verbatim>\<open>IndexError\<close>. Hence a
  non-empty row with at most as many entries as there are labels is always processed
  (so is a row of exactly that length, when there is a label at all), a failure is
  either the \<^verbatim>\<open>ValueError\<close> of an empty row or the \<^verbatim>\<open>IndexError\<close> of a row longer than
  the label list, and the dictionary of a processed row has at most as many entries as
  the shorter of the label list and the row, so fewer than there are labels for a
  shorter row.
\<close>

theorem postprocess_failure_modes:
  "(row = [] \<longrightarrow> postprocess labs row = Inl ValueError) \<and>
   (argmax (softmax row) = Inr k \<and> k < length labs \<longrightarrow>
      postprocess labs row =
        Inr \<lparr>out = softmax row, class_ind = k, predicted_class = labs ! k,
             output_dict = dict_of (zip labs (softmax row))\<rparr>) \<and>
   (argmax (softmax row) = Inr k \<and> length labs \<le> k \<longrightarrow>
      postprocess labs row = Inl IndexError) \<and>
   (row \<noteq> [] \<and> length row \<le> length labs \<longrightarrow> \<not> isl (postprocess labs row)) \<and>
   (postprocess labs row = Inl e \<longrightarrow>
      (row = [] \<and> e = ValueError) \<or> (length labs < length row \<and> e = IndexError)) \<and>
   (postprocess labs row = Inr p \<longrightarrow>
      length (output_dict p) \<le> min (length labs) (length row))"
proof (intro conjI impI)
  assume "row = []"
  then show "postprocess labs row = Inl ValueError"
    by (simp add: postprocess_def argmax_def)
next
  assume "argmax (softmax row) = Inr k \<and> k < length labs"
  then show "postprocess labs row =
        Inr \<lparr>out = softmax row, class_ind = k, predicted_class = labs ! k,
             output_dict = dict_of (zip labs (softmax row))\<rparr>"
    by (simp add: postprocess_def getitem_in_range Let_def)
next
  assume "argmax (softmax row) = Inr k \<and> length labs \<le> k"
  then show "postprocess labs row = Inl IndexError"
    by (simp add: postprocess_def getitem_def Let_def)
next
  assume a: "row \<noteq> [] \<and> length row \<le> length labs"
  then have "softmax row \<noteq> []" using softmax_length[of row] by auto
  then obtain k where k: "argmax (softmax row) = Inr k" using argmax_nonempty by blast
  from argmax_first_max[OF k] a have "k < length labs" by (simp add: softmax_length)
  with k show "\<not> isl (postprocess labs row)"
    by (simp add: postprocess_def getitem_in_range Let_def)
next
  assume f: "postprocess labs row = Inl e"
  from postprocess_Inl[OF f]
  show "(row = [] \<and> e = ValueError) \<or> (length labs < length row \<and> e = IndexError)"
  proof
    assume "argmax (softmax row) = Inl e"
    from argmax_Inl[OF this] softmax_length[of row] show ?thesis by simp
  next
    assume "\<exists>k. argmax (softmax row) = Inr k \<and> getitem labs (int k) = Inl e"
    then obtain k where k: "argmax (softmax row) = Inr k"
      and g: "getitem labs (int k) = Inl e" by blast
    from argmax_first_max[OF k] have "k < length row" by (simp add: softmax_length)
    with getitem_Inl[OF g] show ?thesis by auto
  qed
next
  assume s: "postprocess labs row = Inr p"
  from postprocess_Inr[OF s]
  have "output_dict p = dict_of (zip labs (softmax row))" by simp
  with dict_of_length[of "zip labs (softmax row)"]
  show "length (output_dict p) \<le> min (length labs) (length row)"
    by (simp add: softmax_length)
qed

text \<open>
  With the four labels: the empty row raises in the arg-max; four equal scores are
  processed; five scores with the greatest in the first place are processed although
  the row is longer than the label list; five scores with the greatest in the last
  place raise in the label lookup; three equal scores are processed and give at most
  three dictionary entries.
\<close>

theorem postprocess_failure_modes_witness:
  "postprocess ag_news_labels [] = Inl ValueError \<and>
   argmax (softmax [0, 0, 0, 0]) = Inr 0 \<and>
   postprocess ag_news_labels [0, 0, 0, 0] =
     Inr \<lparr>out = softmax [0, 0, 0, 0], class_ind = 0, predicted_class = ag_news_labels ! 0,
          output_dict = dict_of (zip ag_news_labels (softmax [0, 0, 0, 0]))\<rparr> \<and>
   argmax (softmax [1, 0, 0, 0, 0]) = Inr 0 \<and>
   length ag_news_labels < length [1, 0, 0, 0, 0 :: real] \<and>
   postprocess ag_news_labels [1, 0, 0, 0, 0] =
     Inr \<lparr>out = softmax [1, 0, 0, 0, 0], class_ind = 0, predicted_class = ag_news_labels ! 0,
          output_dict = dict_of (zip ag_news_labels (softmax [1, 0, 0, 0, 0]))\<rparr> \<and>
   argmax (softmax [0, 0, 0, 0, 1]) = Inr 4 \<and>
   postprocess ag_news_labels [0, 0, 0, 0, 1] = Inl IndexError \<and>
   \<not> isl (postprocess ag_news_labels [0, 0, 0]) \<and>
   length (output_dict (projr (postprocess ag_news_labels [0, 0, 0]))) \<le> 3"
proof -
  have len: "length ag_news_labels = 4" by (simp add: ag_news_labels_def)
  have a0: "argmax (softmax [0, 0, 0, 0]) = Inr 0" by (simp add: argmax_def)
  note a1 = argmax_big_first and a4 = argmax_big_last
  note t = postprocess_failure_modes
  from t[of "[]" ag_news_labels]
  have c1: "postprocess ag_news_labels [] = Inl ValueError" by simp
  from t[of "[0, 0, 0, 0]" ag_news_labels 0] a0 len
  have c2: "postprocess ag_news_labels [0, 0, 0, 0] =
     Inr \<lparr>out = softmax [0, 0, 0, 0], class_ind = 0, predicted_class = ag_news_labels ! 0,
          output_dict = dict_of (zip ag_news_labels (softmax [0, 0, 0, 0]))\<rparr>" by simp
  from t[of "[1, 0, 0, 0, 0]" ag_news_labels 0] a1 len
  have c3: "postprocess ag_news_labels [1, 0, 0, 0, 0] =
     Inr \<lparr>out = softmax [1, 0, 0, 0, 0], class_ind = 0, predicted_class = ag_news_labels ! 0,
          output_dict = dict_of (zip ag_news_labels (softmax [1, 0, 0, 0, 0]))\<rparr>" by simp
  from t[of "[0, 0, 0, 0, 1]" ag_news_labels 4] a4 len
  have c4: "postprocess ag_news_labels [0, 0, 0, 0, 1] = Inl IndexError" by simp
  from t[of "[0, 0, 0]" ag_news_labels] len
  have c5: "\<not> isl (postprocess ag_news_labels [0, 0, 0])" by simp
  then obtain p where p: "postprocess ag_news_labels [0, 0, 0] = Inr p"
    by (cases "postprocess ag_news_labels [0, 0, 0]") auto
  from t[of "[0, 0, 0]" ag_news_labels 0 _ p] p len
  have c6: "length (output_dict (projr (postprocess ag_news_labels [0, 0, 0]))) \<le> 3" by simp
  from c1 a0 c2 a1 len c3 a4 c4 c5 c6 show ?thesis by simp
qed

text \<open>
  C8 as stated fails: a row of three scores for four labels raises nothing. The result
  is a prediction whose dictionary has three entries.
\<close>

theorem postprocess_shape_counterexample:
  "postprocess ag_news_labels [0, 0, 0] =
     Inr \<lparr>out = [1/3, 1/3, 1/3], class_ind = 0, predicted_class = ''World'',
          output_dict = [(''World'', 1/3), (''Sports'', 1/3), (''Business'', 1/3)]\<rparr> \<and>
   length [0, 0, 0 :: real] \<noteq> length ag_news_labels"
  by (simp add: postprocess_def argmax_def getitem_def dict_of_def ag_news_labels_def)

subsection \<open>Exceptions in the loop\<close>

lemma inference_loop_append:
  "\<forall>d \<in> set pre. \<not> isl (loop_body h d) \<Longrightarrow>
     inference_loop h (pre @ rest) stdout =
     inference_loop h rest (stdout @ map (\<lambda>d. printed (projr (loop_body h d))) pre)"
proof (induction pre arbitrary: stdout)
  case Nil
  then show ?case by simp
next
  case (Cons d pre)
  from Cons.prems obtain v where v: "loop_body h d = Inr v"
    by (cases "loop_body h d") auto
  from Cons.prems have "\<forall>d \<in> set pre. \<not> isl (loop_body h d)" by simp
  from Cons.IH[OF this] v show ?case by simp
qed

lemma inference_loop_all_ok:
  "\<forall>d \<in> set ds. \<not> isl (loop_body h d) \<Longrightarrow>
     inference_loop h ds stdout =
       (stdout @ map (\<lambda>d. printed (projr (loop_body h d))) ds, None)"
  using inference_loop_append[of ds h "[]" stdout] by simp

text \<open>
  C9, as amended. An exception in one record ends the whole loop: if the records
  \<open>pre\<close> are processed and the next record \<open>d\<close> raises \<open>e\<close>, the loop ends with \<open>e\<close>
  after printing the reports of \<open>pre\<close>, in order, and nothing else. The result does not
  depend on the records \<open>post\<close> that follow: none of them is processed, nothing is
  retried, and no line is printed for \<open>d\<close>.
\<close>

theorem inference_loop_stops_at_first_error:
  "\<forall>d \<in> set pre. \<not> isl (loop_body h d) \<Longrightarrow> loop_body h d = Inl e \<Longrightarrow>
     inference_loop h (pre @ d # post) stdout =
       (stdout @ map (\<lambda>d. printed (projr (loop_body h d))) pre, Some e)"
  by (simp add: inference_loop_append)

text \<open>A good record, one that is too long for the network, and the good record again.\<close>

theorem inference_loop_stops_at_first_error_witness:
  "inference_loop example_hub
     [\<lparr>description = ''IBM'', label = 2\<rparr>,
      \<lparr>description = concat (replicate 600 ''a ''), label = 2\<rparr>,
      \<lparr>description = ''IBM'', label = 2\<rparr>] [] =
   ([(''IBM'', ''Business'',
      [(''World'', 1/4), (''Sports'', 1/4), (''Business'', 1/4), (''Sci/Tech'', 1/4)])],
    Some RuntimeError)"
  using inference_loop_stops_at_first_error
    [of "[\<lparr>description = ''IBM'', label = 2\<rparr>]" example_hub
        "\<lparr>description = concat (replicate 600 ''a ''), label = 2\<rparr>" RuntimeError
        "[\<lparr>description = ''IBM'', label = 2\<rparr>]" "[]"]
  by (simp add: example_ok example_long printed_def)

text \<open>
  C9 as stated fails: when the first of two records raises, nothing is printed for the
  second, although the loop over the second record alone prints its report.
\<close>

theorem inference_loop_continue_counterexample:
  "inference_loop example_hub
     [\<lparr>description = concat (replicate 600 ''a ''), label = 2\<rparr>,
      \<lparr>description = ''IBM'', label = 2\<rparr>] [] = ([], Some RuntimeError) \<and>
   inference_loop example_hub [\<lparr>description = ''IBM'', label = 2\<rparr>] [] =
     ([(''IBM'', ''Business'',
        [(''World'', 1/4), (''Sports'', 1/4), (''Business'', 1/4), (''Sci/Tech'', 1/4)])],
      None)"
  by (simp add: example_ok example_long printed_def)

subsection \<open>The reported fields\<close>

text \<open>
  C10, as amended. For every record the loop processes, the actual class is the entry
  of the label list \<^verbatim>\<open>list(config.id2label.values())\<close> at the record's integer
  label, by Python's indexing: the label lies between \<open>-C\<close> and \<open>C - 1\<close>, and a
  label from 0 on selects the entry at that position. The dictionary is the one built
  from the names zipped with the probabilities: its keys are the first
  \<open>length out\<close> names of the list, each once, in the order of their first places; a
  name maps to the last probability zipped with it; and it has at most
  \<open>min C (length out)\<close> entries. When the names of the label list are pairwise
  distinct, the dictionary is the zipped list itself and has exactly
  \<open>min C (length out)\<close> entries.
\<close>

theorem report_fields:
  "loop_body h d = Inr v \<Longrightarrow>
     getitem (map snd (id2label h)) (label d) = Inr (actual_class v) \<and>
     - int (length (id2label h)) \<le> label d \<and> label d < int (length (id2label h)) \<and>
     (0 \<le> label d \<longrightarrow> actual_class v = map snd (id2label h) ! nat (label d)) \<and>
     output_dict (pred v) = dict_of (zip (map snd (id2label h)) (out (pred v))) \<and>
     map fst (output_dict (pred v)) =
       rev (remdups (rev (take (length (out (pred v))) (map snd (id2label h))))) \<and>
     map_of (output_dict (pred v)) =
       map_of (rev (zip (map snd (id2label h)) (out (pred v)))) \<and>
     length (output_dict (pred v)) \<le> min (length (id2label h)) (length (out (pred v))) \<and>
     (distinct (map snd (id2label h)) \<longrightarrow>
        output_dict (pred v) = zip (map snd (id2label h)) (out (pred v)) \<and>
        length (output_dict (pred v)) = min (length (id2label h)) (length (out (pred v))))"
proof -
  assume a: "loop_body h d = Inr v"
  from loop_body_Inr[OF a] obtain row
    where g: "getitem (map snd (id2label h)) (label d) = Inr (actual_class v)"
      and p: "postprocess (map snd (id2label h)) row = Inr (pred v)" by blast
  from g have r: "- int (length (id2label h)) \<le> label d \<and>
     label d < int (length (id2label h)) \<and>
     (0 \<le> label d \<longrightarrow> actual_class v = map snd (id2label h) ! nat (label d))"
    by (auto simp: getitem_def split: if_splits)
  from postprocess_Inr[OF p]
  have z: "output_dict (pred v) = dict_of (zip (map snd (id2label h)) (out (pred v)))"
    by simp
  have keys: "map fst (output_dict (pred v)) =
       rev (remdups (rev (take (length (out (pred v))) (map snd (id2label h)))))"
  proof -
    have "take (min (length (id2label h)) (length (out (pred v)))) (id2label h) =
          take (length (out (pred v))) (id2label h)"
      by (cases "length (out (pred v)) \<le> length (id2label h)") (simp_all add: min_def)
    then show ?thesis
      unfolding z dict_of_keys by (simp add: map_fst_zip_take take_map)
  qed
  have vals: "map_of (output_dict (pred v)) =
       map_of (rev (zip (map snd (id2label h)) (out (pred v))))"
    unfolding z by (rule dict_of_map_of)
  have len: "length (output_dict (pred v)) \<le> min (length (id2label h)) (length (out (pred v)))"
    unfolding z using dict_of_length[of "zip (map snd (id2label h)) (out (pred v))"] by simp
  have dist: "distinct (map snd (id2label h)) \<longrightarrow>
        output_dict (pred v) = zip (map snd (id2label h)) (out (pred v)) \<and>
        length (output_dict (pred v)) = min (length (id2label h)) (length (out (pred v)))"
    using z by (simp add: dict_of_zip)
  from g r z keys vals len dist show ?thesis by blast
qed

text \<open>
  The record with label 2 is reported as Business, with four dictionary entries. With
  two classes of the name News and the scores 1 and 0, the one key News holds the second
  probability.
\<close>

theorem report_fields_witness:
  "loop_body example_hub \<lparr>description = ''IBM'', label = 2\<rparr> =
     Inr \<lparr>art = ''IBM'', actual_class = ''Business'',
          inp = \<lparr>input_ids = [101, 100, 102], token_type_ids = [0, 0, 0],
                 attention_mask = [1, 1, 1]\<rparr>,
          pred = \<lparr>out = [1/4, 1/4, 1/4, 1/4], class_ind = 0, predicted_class = ''World'',
                  output_dict = [(''World'', 1/4), (''Sports'', 1/4), (''Business'', 1/4),
                                 (''Sci/Tech'', 1/4)]\<rparr>\<rparr> \<and>
   distinct (map snd (id2label example_hub)) \<and>
   ''Business'' = map snd (id2label example_hub) ! 2 \<and>
   length [(''World'', 1/4 :: real), (''Sports'', 1/4), (''Business'', 1/4),
           (''Sci/Tech'', 1/4)]
     = min (length (id2label example_hub)) (length [1/4, 1/4, 1/4, 1/4 :: real]) \<and>
   map fst [(''News'', softmax [1, 0] ! 1)] =
     rev (remdups (rev (take (length (softmax [1, 0])) [''News'', ''News'']))) \<and>
   map_of [(''News'', softmax [1, 0] ! 1)] =
     map_of (rev (zip [''News'', ''News''] (softmax [1, 0])))"
  using report_fields[OF example_ok] example_ok report_fields[OF example_repeated]
  by (simp add: example_hub_def ag_news_labels_def)

text \<open>
  C10 as stated fails: with two classes of the same name and two probabilities, the
  dictionary has one entry, not \<open>min 2 2\<close>; the second probability has replaced the
  first under the one key.
\<close>

theorem output_dict_size_counterexample:
  "loop_body (example_hub\<lparr>id2label := [(0, ''News''), (1, ''News'')],
                          logits := (\<lambda>e. Inr [0, 0])\<rparr>)
       \<lparr>description = ''IBM'', label = 1\<rparr> =
     Inr \<lparr>art = ''IBM'', actual_class = ''News'',
          inp = \<lparr>input_ids = [101, 100, 102], token_type_ids = [0, 0, 0],
                 attention_mask = [1, 1, 1]\<rparr>,
          pred = \<lparr>out = [1/2, 1/2], class_ind = 0, predicted_class = ''News'',
                  output_dict = [(''News'', 1/2)]\<rparr>\<rparr> \<and>
   length [(''News'', 1/2 :: real)] \<noteq>
     min (length [(0 :: int, ''News''), (1, ''News'')]) (length [1/2, 1/2 :: real])"
  by (simp add: loop_body_def tokenizer_def example_hub_def postprocess_def argmax_def
      getitem_def dict_of_def)

subsection \<open>The transform in exact arithmetic\<close>

text \<open>
  Over the real numbers the entries of \<open>softmax xs\<close> are positive, add up to 1 when
  \<open>xs\<close> is not empty, and the first maximum stays where it is. These are facts about
  the formula. The tensors of the program hold 32-bit floating-point numbers, and
  rounding is not represented here: there \<open>exp\<close> of a tiny negative number is 1, so
  two different scores can get the same probability.
\<close>

lemma sum_list_exp_pos: "xs \<noteq> [] \<Longrightarrow> 0 < sum_list (map (\<lambda>y. exp (y - m :: real)) xs)"
  by (induction xs) (auto intro!: add_pos_nonneg sum_list_nonneg)

lemma softmax_map:
  "softmax (x # xs) =
     map (\<lambda>y. exp (y - fold max xs x) /
               sum_list (map (\<lambda>y. exp (y - fold max xs x)) (x # xs)))
       (x # xs)"
  by (simp add: Let_def)

lemma softmax_pos: "p \<in> set (softmax xs) \<Longrightarrow> 0 < p"
proof (cases xs)
  case Nil
  assume "p \<in> set (softmax xs)"
  with Nil show ?thesis by simp
next
  case (Cons x rest)
  define s where "s = sum_list (map (\<lambda>y. exp (y - fold max rest x)) (x # rest))"
  assume "p \<in> set (softmax xs)"
  then have "p \<in> set (map (\<lambda>y. exp (y - fold max rest x) / s) (x # rest))"
    by (simp only: Cons softmax_map s_def)
  then obtain y where "p = exp (y - fold max rest x) / s" by auto
  moreover have "0 < s"
    unfolding s_def by (rule sum_list_exp_pos) simp
  ultimately show ?thesis by simp
qed

lemma sum_list_divide: "sum_list (map (\<lambda>e. e / s) es) = sum_list es / (s :: real)"
  by (induction es) (simp_all add: add_divide_distrib)

lemma softmax_sum: "xs \<noteq> [] \<Longrightarrow> sum_list (softmax xs) = 1"
proof (cases xs)
  case Nil
  assume "xs \<noteq> []"
  with Nil show ?thesis by simp
next
  case (Cons x rest)
  have "0 < sum_list (map (\<lambda>y. exp (y - fold max rest x)) (x # rest))"
    by (rule sum_list_exp_pos) simp
  then show ?thesis
    unfolding Cons softmax.simps Let_def sum_list_divide by simp
qed

lemma argmax_scan_strict_mono:
  "strict_mono f \<Longrightarrow> argmax_scan (map f xs) i (f mp) best = argmax_scan xs i mp best"
  by (induction xs arbitrary: i mp best) (simp_all add: strict_mono_less)

lemma argmax_softmax: "argmax (softmax xs) = argmax xs"
proof (cases xs)
  case Nil
  then show ?thesis by simp
next
  case (Cons x rest)
  define f where
    "f = (\<lambda>y. exp (y - fold max rest x) /
               sum_list (map (\<lambda>y. exp (y - fold max rest x)) (x # rest)))"
  have "0 < sum_list (map (\<lambda>y. exp (y - fold max rest x)) (x # rest))"
    by (rule sum_list_exp_pos) simp
  then have "strict_mono f"
    unfolding f_def by (intro strict_monoI divide_strict_right_mono) simp_all
  from argmax_scan_strict_mono[OF this, of rest 1 x 0]
  show ?thesis unfolding Cons softmax_map f_def[symmetric] by (simp add: argmax_def)
qed

end
